theory Spec2Isabelle
  imports Complex_Main "HOL-Library.Multiset" "HOL-Library.Log_Nat"
begin

section \<open>Data model of \<^verbatim>\<open>src/src/App.tsx\<close>\<close>

text \<open>
  The component \<^verbatim>\<open>App\<close> keeps its data in React state cells. The embedding puts the
  cells that the task and category handlers read or write into one record and turns every
  handler into a function from the state before the event to the state after it. Inside a
  handler the names \<^verbatim>\<open>tasks\<close>, \<^verbatim>\<open>categories\<close>, \<^verbatim>\<open>activeCategory\<close> ... are the
  values of the render that created the handler, that is the state before the event, and
  every \<^verbatim>\<open>setX(prev => ...)\<close> is applied to that same state, since no handler sets one
  cell twice.

  Left out: the sound cues (\<^verbatim>\<open>playDelete\<close> ...), the confetti, the authentication
  cells, the theme, and the timers (\<^verbatim>\<open>setTimeout\<close>), which later only switch
  \<^verbatim>\<open>isToastActive\<close> off or reset the input cells of a closed sheet.
\<close>

datatype priority = Low | Medium | High

text \<open>\<^verbatim>\<open>interface Task\<close>. The fields \<^verbatim>\<open>id\<close> and \<^verbatim>\<open>text\<close> are renamed, the two
  optional fields are options, the two numbers are timestamps in milliseconds.\<close>

record task =
  task_id :: string
  task_text :: string
  description :: "string option"
  completed :: bool
  category :: string
  priority :: priority
  dueDate :: "int option"
  createdAt :: int

datatype sheetMode = ADD_TASK | EDIT_TASK | ADD_CATEGORY | VIEW_TASK

record app_state =
  tasks :: "task list"
  categories :: "string list"
  archivedTasks :: "task list"
  archivedCategories :: "string list"
  activeCategory :: string
  searchQuery :: string
  isSheetOpen :: bool
  sheetMode :: sheetMode
  editingTaskId :: "string option"
  textInput :: string
  descriptionInput :: string
  selectedCategory :: string
  selectedPriority :: priority
  selectedDueDate :: "int option"
  isToastActive :: bool
  toastMessage :: string
  lastDeletedTask :: "task option"
  lastDeletedCategory :: "string option"
  activeSlidTask :: "string option"
  isSidebarOpen :: bool

text \<open>The \<^verbatim>\<open>useState\<close> initial values of a user without stored data
  (\<^verbatim>\<open>DEFAULT_CATEGORIES = []\<close>).\<close>

definition initialState :: app_state where
  "initialState =
     \<lparr> tasks = [], categories = [], archivedTasks = [], archivedCategories = [],
       activeCategory = ''All'', searchQuery = [],
       isSheetOpen = False, sheetMode = ADD_TASK, editingTaskId = None,
       textInput = [], descriptionInput = [], selectedCategory = ''Personal'',
       selectedPriority = Medium, selectedDueDate = None,
       isToastActive = False, toastMessage = ''Archived successfully'',
       lastDeletedTask = None, lastDeletedCategory = None,
       activeSlidTask = None, isSidebarOpen = False \<rparr>"

section \<open>Strings\<close>

text \<open>A string of the model is a sequence of code units below 256. Of these,
  \<^verbatim>\<open>String.prototype.trim\<close> strips the white space and line terminators U+0009 to
  U+000D, U+0020 and U+00A0 from both ends; the white space that it strips beyond U+00FF
  (U+FEFF, U+2028, U+2029, the space separators) has no counterpart here.\<close>

definition isWhiteSpace :: "char \<Rightarrow> bool" where
  "isWhiteSpace c =
     (c \<in> set [CHR 0x09, CHR 0x0A, CHR 0x0B, CHR 0x0C, CHR 0x0D, CHR 0x20, CHR 0xA0])"

definition trim :: "string \<Rightarrow> string" where
  "trim str = rev (dropWhile isWhiteSpace (rev (dropWhile isWhiteSpace str)))"

text \<open>The decimal numeral that \<^verbatim>\<open>'task_' + Date.now()\<close> appends.\<close>

fun toDecimal :: "nat \<Rightarrow> string" where
  "toDecimal n =
     (if n < 10 then [''0123456789'' ! n]
      else toDecimal (n div 10) @ [''0123456789'' ! (n mod 10)])"

declare toDecimal.simps [simp del]

section \<open>Double-precision arithmetic\<close>

text \<open>JavaScript numbers are IEEE-754 binary64 values, and \<^verbatim>\<open>/\<close> and \<^verbatim>\<open>*\<close> return
  the exact result rounded to the nearest such value, ties to the even significand. A
  double is modelled by the rational that it denotes. \<open>binaryExponent x\<close> is the exponent
  \<open>E\<close> with \<open>2 powi E \<le> x < 2 powi (E + 1)\<close> of a positive \<open>x\<close>, and \<open>toDouble x\<close> rounds
  \<open>x\<close> to 53 significant bits. The exponent range of binary64 is not modelled: the values
  rounded below are quotients of two array lengths (below \<open>2 ^ 32\<close>) and at most 100
  times such a quotient, far from overflow and underflow.\<close>

definition binaryExponent :: "rat \<Rightarrow> int" where
  "binaryExponent x = (if 1 \<le> x then bitlen \<lfloor>x\<rfloor> - 1 else - bitlen (\<lceil>1 / x\<rceil> - 1))"

definition roundHalfEven :: "rat \<Rightarrow> int" where
  "roundHalfEven x =
     (let f = \<lfloor>x\<rfloor>; d = x - of_int f
      in if d < 1 / 2 then f else if 1 / 2 < d then f + 1 else if even f then f else f + 1)"

definition toDouble :: "rat \<Rightarrow> rat" where
  "toDouble x =
     (if x = 0 then 0
      else let e = binaryExponent \<bar>x\<bar> - 52
           in sgn x * of_int (roundHalfEven (\<bar>x\<bar> / 2 powi e)) * 2 powi e)"

section \<open>Derived data\<close>

text \<open>\<^verbatim>\<open>categoryStats\<close> (lines 289-296). The two lengths are integers, which are doubles
  as they are; the quotient is rounded, and so is its product with 100.\<close>

record stat =
  stat_name :: string
  stat_count :: nat
  stat_progress :: rat

definition categoryStat :: "task list \<Rightarrow> string \<Rightarrow> stat" where
  "categoryStat ts cat =
     (let catTasks = filter (\<lambda>t. category t = cat) ts;
          completedCount = length (filter completed catTasks);
          progress = (if length catTasks = 0 then 0
                      else toDouble (toDouble (of_nat completedCount / of_nat (length catTasks)) * 100))
      in \<lparr> stat_name = cat, stat_count = length catTasks, stat_progress = progress \<rparr>)"

definition categoryStats :: "app_state \<Rightarrow> stat list" where
  "categoryStats s = map (categoryStat (tasks s)) (categories s)"

section \<open>Handlers\<close>

text \<open>\<^verbatim>\<open>handleSave\<close> (lines 366-397), as the save button and the Enter key of the input
  run it: on the cells of the current render. (The shortcut Ctrl+Enter can run the
  \<^verbatim>\<open>handleSave\<close> of an earlier render, which reads older values of the cells that the
  key listener does not depend on.) The two readings of \<^verbatim>\<open>Date.now()\<close> are parameters.
  \<^verbatim>\<open>editingTaskId\<close> is tested for truthiness, so the empty string counts as no id.
  \<^verbatim>\<open>toggleSheet(false)\<close> closes the sheet.\<close>

definition handleSave :: "nat \<Rightarrow> nat \<Rightarrow> app_state \<Rightarrow> app_state" where
  "handleSave nowId nowCreated s =
     (if trim (textInput s) = [] then s
      else if sheetMode s = ADD_CATEGORY then
        (if trim (textInput s) \<in> set (categories s) then s\<lparr> isSheetOpen := False \<rparr>
         else s\<lparr> categories := categories s @ [trim (textInput s)], isSheetOpen := False \<rparr>)
      else if sheetMode s = EDIT_TASK \<and> editingTaskId s \<noteq> None \<and> editingTaskId s \<noteq> Some []
      then
        s\<lparr> tasks := map (\<lambda>t. if Some (task_id t) = editingTaskId s
                              then t\<lparr> task_text := trim (textInput s),
                                      description := Some (trim (descriptionInput s)),
                                      category := selectedCategory s,
                                      priority := selectedPriority s,
                                      dueDate := selectedDueDate s \<rparr>
                              else t) (tasks s),
           isSheetOpen := False \<rparr>
      else
        s\<lparr> tasks := \<lparr> task_id = ''task_'' @ toDecimal nowId,
                       task_text = trim (textInput s),
                       description = Some (trim (descriptionInput s)),
                       completed = False,
                       category = selectedCategory s,
                       priority = selectedPriority s,
                       dueDate = selectedDueDate s,
                       createdAt = int nowCreated \<rparr> # tasks s,
           isSheetOpen := False \<rparr>)"

text \<open>\<^verbatim>\<open>deleteTask\<close> (lines 424-438): the first task with the id, if there is one, is
  put in front of the archive, every task with the id leaves the active list, and the
  task becomes \<^verbatim>\<open>lastDeletedTask\<close>.\<close>

definition deleteTask :: "string \<Rightarrow> app_state \<Rightarrow> app_state" where
  "deleteTask i s =
     (case find (\<lambda>t. task_id t = i) (tasks s) of
        Some taskToDelete \<Rightarrow>
          s\<lparr> archivedTasks := taskToDelete # archivedTasks s,
             tasks := filter (\<lambda>t. task_id t \<noteq> i) (tasks s),
             lastDeletedTask := Some taskToDelete,
             toastMessage := ''Task archived'',
             isToastActive := True,
             activeSlidTask := None \<rparr>
      | None \<Rightarrow> s\<lparr> activeSlidTask := None \<rparr>)"

text \<open>\<^verbatim>\<open>undoDelete\<close> (lines 440-452). \<^verbatim>\<open>lastDeletedCategory\<close> is a string tested for
  truthiness: the empty name is not restored.\<close>

definition undoDelete :: "app_state \<Rightarrow> app_state" where
  "undoDelete s =
     (case lastDeletedTask s of
        Some t \<Rightarrow>
          s\<lparr> archivedTasks := filter (\<lambda>u. task_id u \<noteq> task_id t) (archivedTasks s),
             tasks := t # tasks s,
             lastDeletedTask := None,
             isToastActive := False \<rparr>
      | None \<Rightarrow>
          (case lastDeletedCategory s of
             Some c \<Rightarrow>
               (if c \<noteq> [] then
                  s\<lparr> archivedCategories := filter (\<lambda>d. d \<noteq> c) (archivedCategories s),
                     categories := categories s @ [c],
                     lastDeletedCategory := None,
                     isToastActive := False \<rparr>
                else s)
           | None \<Rightarrow> s))"

text \<open>\<^verbatim>\<open>categories.find(c => c !== cat) || 'General'\<close> (line 460): \<^verbatim>\<open>||\<close> takes the
  right operand when the left one is falsy, that is when \<^verbatim>\<open>find\<close> returns
  \<^verbatim>\<open>undefined\<close> and also when it returns the empty string.\<close>

definition fallbackCategory :: "string \<Rightarrow> string list \<Rightarrow> string" where
  "fallbackCategory cat cats =
     (case find (\<lambda>c. c \<noteq> cat) cats of
        None \<Rightarrow> ''General''
      | Some c \<Rightarrow> if c = [] then ''General'' else c)"

text \<open>\<^verbatim>\<open>deleteCategory\<close> (lines 454-469).\<close>

definition deleteCategory :: "string \<Rightarrow> app_state \<Rightarrow> app_state" where
  "deleteCategory cat s =
     s\<lparr> archivedCategories := cat # archivedCategories s,
        lastDeletedCategory := Some cat,
        categories := filter (\<lambda>c. c \<noteq> cat) (categories s),
        tasks := map (\<lambda>t. if category t = cat
                            then t\<lparr> category := fallbackCategory cat (categories s) \<rparr>
                            else t) (tasks s),
        activeCategory := (if activeCategory s = cat then ''All'' else activeCategory s),
        toastMessage := [CHR 0x27] @ cat @ [CHR 0x27] @ '' archived'',
        isToastActive := True,
        isSidebarOpen := False \<rparr>"

text \<open>Archive management (lines 472-504). \<^verbatim>\<open>restoreTaskFromArchive\<close> receives the task
  object that the archive page shows.\<close>

definition restoreTaskFromArchive :: "task \<Rightarrow> app_state \<Rightarrow> app_state" where
  "restoreTaskFromArchive t s =
     s\<lparr> archivedTasks := filter (\<lambda>u. task_id u \<noteq> task_id t) (archivedTasks s),
        tasks := t # tasks s,
        toastMessage := ''Task restored'',
        isToastActive := True \<rparr>"

definition restoreCategoryFromArchive :: "string \<Rightarrow> app_state \<Rightarrow> app_state" where
  "restoreCategoryFromArchive cat s =
     s\<lparr> archivedCategories := filter (\<lambda>c. c \<noteq> cat) (archivedCategories s),
        categories := categories s @ [cat],
        toastMessage := [CHR 0x27] @ cat @ [CHR 0x27] @ '' restored'',
        isToastActive := True \<rparr>"

definition permanentlyDeleteTask :: "string \<Rightarrow> app_state \<Rightarrow> app_state" where
  "permanentlyDeleteTask i s =
     s\<lparr> archivedTasks := filter (\<lambda>t. task_id t \<noteq> i) (archivedTasks s),
        toastMessage := ''Permanently deleted'',
        isToastActive := True \<rparr>"

definition permanentlyDeleteCategory :: "string \<Rightarrow> app_state \<Rightarrow> app_state" where
  "permanentlyDeleteCategory cat s =
     s\<lparr> archivedCategories := filter (\<lambda>c. c \<noteq> cat) (archivedCategories s),
        toastMessage := ''Permanently deleted'',
        isToastActive := True \<rparr>"

text \<open>\<^verbatim>\<open>importTasks\<close> (lines 545-564). The argument is what \<^verbatim>\<open>JSON.parse\<close> makes of
  the file: \<open>None\<close> when the \<^verbatim>\<open>try\<close> block throws and the \<^verbatim>\<open>catch\<close> branch runs
  (the text is not JSON, or it is the JSON \<^verbatim>\<open>null\<close>, whose fields cannot be read),
  otherwise the values that reading \<^verbatim>\<open>data.tasks\<close> and \<^verbatim>\<open>data.categories\<close> gives. Such
  a value is
  \<^item> \<open>Absent\<close>: \<^verbatim>\<open>undefined\<close>, the document has no such field (or is not an object);
  \<^item> \<open>Falsy\<close>: the field holds \<^verbatim>\<open>null\<close>, \<^verbatim>\<open>false\<close>, \<^verbatim>\<open>0\<close> or the empty string;
  \<^item> \<open>Sequence xs\<close>: the field holds an array of tasks (of strings), as the backup format
    has it; an array is truthy even when empty;
  \<^item> \<open>Other\<close>: the field holds any other value, all of them truthy: \<^verbatim>\<open>true\<close>, a
    non-zero number, a non-empty string, an object, an array of something else.

  \<^verbatim>\<open>if (data.tasks) setTasks(data.tasks)\<close> writes every truthy value into the cell as it
  is. After \<open>Other\<close> the cell holds no sequence, which no \<open>app_state\<close> represents: the
  result of the import is then \<open>Untyped\<close>.\<close>

datatype 'a field = Absent | Falsy | Sequence "'a list" | Other

record backup =
  data_tasks :: "task field"
  data_categories :: "string field"

datatype import_result = Typed app_state | Untyped

text \<open>The content of a cell after \<^verbatim>\<open>if (v) set(v)\<close>, where the cell held \<open>old\<close>.\<close>

fun setIfTruthy :: "'a field \<Rightarrow> 'a list \<Rightarrow> 'a list option" where
  "setIfTruthy Absent old = Some old"
| "setIfTruthy Falsy old = Some old"
| "setIfTruthy (Sequence xs) old = Some xs"
| "setIfTruthy Other old = None"

definition importTasks :: "backup option \<Rightarrow> app_state \<Rightarrow> import_result" where
  "importTasks parsed s =
     (case parsed of
        Some data \<Rightarrow>
          (case setIfTruthy (data_tasks data) (tasks s) of
             Some ts \<Rightarrow>
               (case setIfTruthy (data_categories data) (categories s) of
                  Some cs \<Rightarrow>
                    Typed (s\<lparr> tasks := ts,
                              categories := cs,
                              toastMessage := ''Backup restored!'',
                              isToastActive := True \<rparr>)
                | None \<Rightarrow> Untyped)
           | None \<Rightarrow> Untyped)
      | None \<Rightarrow>
          Typed (s\<lparr> toastMessage := ''Invalid backup file'',
                    isToastActive := True \<rparr>))"

text \<open>The \<^verbatim>\<open>onReorder\<close> callback of the task list (lines 834-852): \<^verbatim>\<open>!searchQuery\<close>
  holds for the empty string only.\<close>

definition onReorder :: "task list \<Rightarrow> app_state \<Rightarrow> app_state" where
  "onReorder newOrder s =
     (if activeCategory s = ''All'' \<and> searchQuery s = [] then s\<lparr> tasks := newOrder \<rparr> else s)"

section \<open>Notions of the specification\<close>

text \<open>The invariant check of the specification: every active task's category is the name
  of an active category.\<close>

definition categoryInvariant :: "app_state \<Rightarrow> bool" where
  "categoryInvariant s = list_all (\<lambda>t. category t \<in> set (categories s)) (tasks s)"

section \<open>Example states\<close>

definition taskShip :: task where
  "taskShip = \<lparr> task_id = ''task_1'', task_text = ''Ship v1'', description = Some [],
                 completed = False, category = ''Work'', priority = High,
                 dueDate = None, createdAt = 1 \<rparr>"

definition taskMilk :: task where
  "taskMilk = \<lparr> task_id = ''task_2'', task_text = ''Buy milk'', description = Some [],
                 completed = True, category = ''Home'', priority = Low,
                 dueDate = Some 5, createdAt = 2 \<rparr>"

definition exampleState :: app_state where
  "exampleState = initialState\<lparr> tasks := [taskMilk, taskShip], categories := [''Work'', ''Home''] \<rparr>"

text \<open>An archive with one task, whose category is active, and one category.\<close>

definition archiveState :: app_state where
  "archiveState = exampleState\<lparr> archivedTasks := [taskShip\<lparr> task_id := ''task_0'' \<rparr>],
                                  archivedCategories := [''Old''] \<rparr>"

text \<open>The state that a new user reaches by adding the space \<open>Work\<close> and then the
  objective \<open>Ship v1\<close> in it.\<close>

definition reachedState :: app_state where
  "reachedState =
     handleSave 1 1
       ((handleSave 0 0 (initialState\<lparr> sheetMode := ADD_CATEGORY, textInput := ''Work'' \<rparr>))
          \<lparr> sheetMode := ADD_TASK, textInput := '' Ship v1 '', selectedCategory := ''Work'',
            selectedPriority := High \<rparr>)"

text \<open>A category list as a backup file can supply it, with an empty name in front.\<close>

definition emptyNameState :: app_state where
  "emptyNameState = initialState\<lparr> tasks := [taskShip], categories := [[], ''Work''] \<rparr>"

text \<open>Two active tasks that carry the same id.\<close>

definition sharedIdState :: app_state where
  "sharedIdState =
     initialState\<lparr> tasks := [taskShip, taskShip\<lparr> task_text := ''Ship v2'' \<rparr>],
                   categories := [''Work''] \<rparr>"

text \<open>An id that two active tasks share, and a third task with an id of its own.\<close>

definition repeatedIdState :: app_state where
  "repeatedIdState =
     initialState\<lparr> tasks := [taskShip, taskShip, taskMilk], categories := [''Work'', ''Home''] \<rparr>"

text \<open>Twenty-five tasks in one category, the first seven of them completed.\<close>

definition sprintTask :: "nat \<Rightarrow> task" where
  "sprintTask i = \<lparr> task_id = ''task_'' @ toDecimal i, task_text = ''Step'',
                     description = Some [], completed = (i < 7), category = ''Work'',
                     priority = Medium, dueDate = None, createdAt = int i \<rparr>"

definition sprintState :: app_state where
  "sprintState = initialState\<lparr> tasks := map sprintTask [0..<25], categories := [''Work''] \<rparr>"




definition homeBackup :: backup where
  "homeBackup = \<lparr> data_tasks = Sequence [taskMilk], data_categories = Sequence [''Home''] \<rparr>"


section \<open>Auxiliary facts\<close>

lemma reachedState_data:
  "tasks reachedState = [taskShip] \<and> categories reachedState = [''Work'']"
  by (simp add: reachedState_def handleSave_def initialState_def trim_def isWhiteSpace_def
      toDecimal.simps taskShip_def)

lemma find_single:
  "filter P xs = [t] \<Longrightarrow> find P xs = Some t"
  by (induction xs) (auto split: if_splits)

lemma filter_none:
  "filter P xs = [] \<Longrightarrow> filter (\<lambda>u. \<not> P u) xs = xs"
  by (induction xs) (auto split: if_splits)

lemma mset_single_out:
  "filter P xs = [t] \<Longrightarrow> mset (t # filter (\<lambda>u. \<not> P u) xs) = mset xs"
proof (induction xs)
  case Nil
  then show ?case by simp
next
  case (Cons x xs)
  show ?case
  proof (cases "P x")
    case True
    with Cons.prems have "x = t" and "filter P xs = []" by simp_all
    then show ?thesis using True filter_none [of P xs] by simp
  next
    case False
    with Cons.prems have "filter P xs = [t]" by simp
    then show ?thesis using False Cons.IH by simp
  qed
qed

lemma filter_absent_id:
  "task_id t \<notin> task_id ` set ts \<Longrightarrow> filter (\<lambda>u. task_id u \<noteq> task_id t) ts = ts"
  by (induction ts) auto

lemma find_first_other:
  "(\<forall>d\<in>set pre. d = cat) \<Longrightarrow> c \<noteq> cat \<Longrightarrow> find (\<lambda>x. x \<noteq> cat) (pre @ c # post) = Some c"
  by (induction pre) auto

lemma find_no_other:
  "(\<forall>c\<in>set cs. c = cat) \<Longrightarrow> find (\<lambda>x. x \<noteq> cat) cs = None"
  by (simp add: find_None_iff)

lemma fallback_active:
  "find (\<lambda>c. c \<noteq> cat) cs = Some f \<Longrightarrow> f \<noteq> [] \<Longrightarrow>
   fallbackCategory cat cs = f \<and> f \<in> set cs \<and> f \<noteq> cat"
proof -
  assume f: "find (\<lambda>c. c \<noteq> cat) cs = Some f" and ne: "f \<noteq> []"
  have "fallbackCategory cat cs = f"
    using ne by (simp add: fallbackCategory_def f)
  moreover have "f \<in> set cs \<and> f \<noteq> cat"
    using f by (auto simp: find_Some_iff)
  ultimately show ?thesis by simp
qed

lemma deleteCategory_keeps_invariant:
  assumes inv: "categoryInvariant s"
    and f: "find (\<lambda>c. c \<noteq> cat) (categories s) = Some f" and ne: "f \<noteq> []"
  shows "categoryInvariant (deleteCategory cat s)"
proof -
  from fallback_active [OF f ne]
  have fb: "fallbackCategory cat (categories s) = f" and mem: "f \<in> set (categories s)"
    and other: "f \<noteq> cat" by simp_all
  show ?thesis
    using inv mem other
    by (auto simp: categoryInvariant_def deleteCategory_def fb list_all_iff)
qed

lemma handleSave_keeps_invariant:
  assumes inv: "categoryInvariant s" and sel: "selectedCategory s \<in> set (categories s)"
  shows "categoryInvariant (handleSave nowId nowCreated s)"
  using inv sel
  by (auto simp: categoryInvariant_def handleSave_def list_all_iff)

lemma binaryExponent_bounds:
  assumes "0 < x"
  shows "2 powi (binaryExponent x) \<le> x \<and> x < 2 powi (binaryExponent x + 1)"
proof (cases "1 \<le> x")
  case True
  define f where "f = \<lfloor>x\<rfloor>"
  define b where "b = bitlen f"
  have f1: "1 \<le> f" using True by (simp add: f_def le_floor_iff)
  then have bb: "2 ^ nat (b - 1) \<le> f \<and> f < 2 ^ nat b"
    unfolding b_def by (intro bitlen_bounds) simp
  have b1: "1 \<le> b"
  proof (rule ccontr)
    assume "\<not> 1 \<le> b"
    then have "nat b = 0" by simp
    with bb f1 show False by simp
  qed
  have E: "binaryExponent x = b - 1"
    using True by (simp add: binaryExponent_def b_def f_def)
  have lo: "(2::rat) powi (b - 1) \<le> x"
  proof -
    have "(2::rat) powi (b - 1) = of_int (2 ^ nat (b - 1))"
      using b1 by (simp add: power_int_def)
    also have "\<dots> \<le> of_int f" using bb by (simp only: of_int_le_iff)
    also have "\<dots> \<le> x" by (simp add: f_def)
    finally show ?thesis .
  qed
  have hi: "x < (2::rat) powi b"
  proof -
    have "x < of_int (f + 1)" using floor_correct [of x] by (simp add: f_def)
    also have "f + 1 \<le> 2 ^ nat b" using bb by simp
    then have "(of_int (f + 1) :: rat) \<le> of_int (2 ^ nat b)" by (simp only: of_int_le_iff)
    also have "(of_int (2 ^ nat b) :: rat) = 2 powi b"
      using b1 by (simp add: power_int_def)
    finally show ?thesis .
  qed
  show ?thesis using lo hi by (simp add: E)
next
  case False
  define y where "y = 1 / x"
  define g where "g = \<lceil>y\<rceil> - 1"
  define b where "b = bitlen g"
  have y1: "1 < y" using False assms by (simp add: y_def)
  have g1: "1 \<le> g" using y1 by (simp add: g_def less_ceiling_iff)
  then have bb: "2 ^ nat (b - 1) \<le> g \<and> g < 2 ^ nat b"
    unfolding b_def by (intro bitlen_bounds) simp
  have b1: "1 \<le> b"
  proof (rule ccontr)
    assume "\<not> 1 \<le> b"
    then have "nat b = 0" by simp
    with bb g1 show False by simp
  qed
  have gy: "of_int g < y" and yg: "y \<le> of_int (g + 1)"
    using ceiling_correct [of y] by (simp_all add: g_def)
  have E: "binaryExponent x = - b"
    using False by (simp add: binaryExponent_def b_def g_def y_def)
  have xy: "x = 1 / y" by (simp add: y_def)
  have lo: "(2::rat) powi (- b) \<le> x"
  proof -
    have "g + 1 \<le> 2 ^ nat b" using bb by simp
    then have "(of_int (g + 1) :: rat) \<le> of_int (2 ^ nat b)" by (simp only: of_int_le_iff)
    with yg have "y \<le> of_int (2 ^ nat b)" by linarith
    then have "y \<le> 2 ^ nat b" by simp
    then have "1 / (2 ^ nat b) \<le> 1 / y"
      using y1 by (intro divide_left_mono) simp_all
    moreover have "(2::rat) powi (- b) = 1 / 2 ^ nat b"
      using b1 by (simp add: power_int_def field_simps)
    ultimately show ?thesis by (simp add: xy)
  qed
  have hi: "x < (2::rat) powi (- b + 1)"
  proof -
    have p: "(of_int (2 ^ nat (b - 1)) :: rat) \<le> of_int g" using bb by (simp only: of_int_le_iff)
    have "(2::rat) ^ nat (b - 1) = of_int (2 ^ nat (b - 1))" by simp
    with p gy have "(2::rat) ^ nat (b - 1) < y" by linarith
    then have "1 / y < 1 / (2::rat) ^ nat (b - 1)"
      using y1 by (simp add: field_simps)
    moreover have "(2::rat) powi (- b + 1) = 1 / 2 ^ nat (b - 1)"
    proof -
      have "- b + 1 = - (b - 1)" by simp
      then have "(2::rat) powi (- b + 1) = 2 powi (- (b - 1))" by simp
      also have "\<dots> = inverse (2 powi (b - 1))" by (rule power_int_minus)
      also have "\<dots> = 1 / 2 ^ nat (b - 1)" using b1 by (simp add: power_int_def field_simps)
      finally show ?thesis .
    qed
    ultimately show ?thesis by (simp add: xy)
  qed
  show ?thesis using lo hi by (simp add: E)
qed


lemma roundHalfEven_near:
  "\<bar>of_int (roundHalfEven x) - x\<bar> \<le> 1 / 2"
proof -
  have "of_int \<lfloor>x\<rfloor> \<le> x" and "x < of_int \<lfloor>x\<rfloor> + 1"
    using floor_correct [of x] by simp_all
  then show ?thesis
    by (auto simp: roundHalfEven_def Let_def)
qed

lemma roundHalfEven_ge:
  "of_int n \<le> x \<Longrightarrow> n \<le> roundHalfEven x"
proof -
  assume "of_int n \<le> x"
  then have "n \<le> \<lfloor>x\<rfloor>" by (simp add: le_floor_iff)
  then show ?thesis by (auto simp: roundHalfEven_def Let_def)
qed

lemma roundHalfEven_le:
  assumes "x \<le> of_int n"
  shows "roundHalfEven x \<le> n"
proof (cases "x = of_int n")
  case True
  then show ?thesis by (simp add: roundHalfEven_def)
next
  case False
  with assms have "x < of_int n" by simp
  then have "\<lfloor>x\<rfloor> < n" by (simp add: floor_less_iff)
  then show ?thesis by (auto simp: roundHalfEven_def Let_def)
qed

lemma toDouble_pos_def:
  "0 < x \<Longrightarrow> toDouble x =
     of_int (roundHalfEven (x / 2 powi (binaryExponent x - 52))) * 2 powi (binaryExponent x - 52)"
  by (simp add: toDouble_def Let_def)

lemma scaled_bounds:
  assumes "0 < x"
  shows "2 ^ 52 \<le> x / 2 powi (binaryExponent x - 52)"
    and "x / 2 powi (binaryExponent x - 52) < 2 ^ 53"
proof -
  define E where "E = binaryExponent x"
  have lo: "2 powi E \<le> x" and hi: "x < 2 powi (E + 1)"
    using binaryExponent_bounds [OF assms] by (simp_all add: E_def)
  have p: "(0::rat) < 2 powi (E - 52)" by simp
  have a: "(2::rat) powi E = 2 ^ 52 * 2 powi (E - 52)"
  proof -
    have "(2::rat) powi E = 2 powi (52 + (E - 52))" by simp
    also have "\<dots> = 2 powi 52 * 2 powi (E - 52)" by (rule power_int_add) simp
    finally show ?thesis by simp
  qed
  have b: "(2::rat) powi (E + 1) = 2 ^ 53 * 2 powi (E - 52)"
  proof -
    have "E + 1 = 53 + (E - 52)" by simp
    then have "(2::rat) powi (E + 1) = 2 powi (53 + (E - 52))" by (rule arg_cong)
    also have "\<dots> = 2 powi 53 * 2 powi (E - 52)" by (rule power_int_add) simp
    finally show ?thesis by simp
  qed
  show "2 ^ 52 \<le> x / 2 powi (binaryExponent x - 52)"
    using lo p unfolding a E_def [symmetric] by (simp add: pos_le_divide_eq)
  show "x / 2 powi (binaryExponent x - 52) < 2 ^ 53"
    using hi p unfolding b E_def [symmetric] by (simp add: pos_divide_less_eq)
qed

lemma toDouble_pos:
  assumes "0 < x"
  shows "0 < toDouble x"
proof -
  have "(of_int (2 ^ 52) :: rat) \<le> x / 2 powi (binaryExponent x - 52)"
    using scaled_bounds(1) [OF assms] by simp
  then have "2 ^ 52 \<le> roundHalfEven (x / 2 powi (binaryExponent x - 52))"
    by (rule roundHalfEven_ge)
  then have "0 < roundHalfEven (x / 2 powi (binaryExponent x - 52))" by simp
  then show ?thesis using assms by (simp add: toDouble_pos_def)
qed

lemma toDouble_error:
  assumes "0 < x"
  shows "\<bar>toDouble x - x\<bar> \<le> x / 2 ^ 53"
proof -
  define e where "e = binaryExponent x - 52"
  define s where "s = x / 2 powi e"
  have p: "(0::rat) < 2 powi e" by simp
  have x: "x = s * 2 powi e" by (simp add: s_def)
  have t: "toDouble x = of_int (roundHalfEven s) * 2 powi e"
    using assms by (simp add: toDouble_pos_def e_def s_def)
  have "toDouble x - x = of_int (roundHalfEven s) * 2 powi e - s * 2 powi e"
    using t x by simp
  then have "toDouble x - x = (of_int (roundHalfEven s) - s) * 2 powi e"
    by (simp add: left_diff_distrib)
  then have "\<bar>toDouble x - x\<bar> = \<bar>of_int (roundHalfEven s) - s\<bar> * 2 powi e"
    using p by (simp add: abs_mult)
  also have "\<dots> \<le> (1 / 2) * 2 powi e"
    using roundHalfEven_near [of s] p by (intro mult_right_mono) simp_all
  also have "\<dots> \<le> (s / 2 ^ 53) * 2 powi e"
  proof -
    have "2 ^ 52 \<le> s" using scaled_bounds(1) [OF assms] by (simp add: s_def e_def)
    then have "(1::rat) / 2 \<le> s / 2 ^ 53" by simp
    then show ?thesis using p by (intro mult_right_mono) simp_all
  qed
  also have "\<dots> = x / 2 ^ 53" using x by simp
  finally show ?thesis .
qed

lemma toDouble_le_nat:
  assumes "0 < x" and "x \<le> of_nat B" and "B < 2 ^ 53"
  shows "toDouble x \<le> of_nat B"
proof -
  define E where "E = binaryExponent x"
  define e where "e = E - 52"
  have p: "(0::rat) < 2 powi e" by simp
  have lo: "2 powi E \<le> x"
    using binaryExponent_bounds [OF assms(1)] by (simp add: E_def)
  have "(2::rat) powi E < 2 powi 53"
  proof -
    have "(2::rat) powi E \<le> of_nat B" using lo assms(2) by simp
    also have "(of_nat B :: rat) < of_nat (2 ^ 53)" using assms(3) by (simp only: of_nat_less_iff)
    finally show ?thesis by simp
  qed
  then have "E < 53"
    by (rule power_int_le_imp_less_exp [rotated]) simp_all
  then have e0: "e \<le> 0" by (simp add: e_def)
  define N where "N = int B * 2 ^ nat (- e)"
  have inv: "(2::rat) powi e = 1 / 2 ^ nat (- e)"
    using e0 by (simp add: power_int_def field_simps)
  have N: "(of_int N :: rat) = of_nat B / 2 powi e"
    by (simp add: N_def inv)
  have "x / 2 powi e \<le> of_nat B / 2 powi e"
    using assms(2) p by (simp add: divide_right_mono)
  then have "roundHalfEven (x / 2 powi e) \<le> N"
    unfolding N [symmetric] by (rule roundHalfEven_le)
  then have "(of_int (roundHalfEven (x / 2 powi e)) :: rat) \<le> of_int N"
    by (simp only: of_int_le_iff)
  then have "(of_int (roundHalfEven (x / 2 powi e)) :: rat) * 2 powi e \<le> of_int N * 2 powi e"
    using p by (intro mult_right_mono) simp_all
  also have "\<dots> = of_nat B" unfolding N by simp
  finally show ?thesis using assms(1) by (simp add: toDouble_pos_def e_def E_def)
qed

lemma toDouble_one: "toDouble 1 = 1"
  by code_simp

lemma toDouble_hundred: "toDouble 100 = 100"
  by code_simp

lemma toDouble_seven_of_25:
  "toDouble (toDouble (7 / 25) * 100) = 7881299347898369 / 281474976710656"
  by code_simp

section \<open>The category invariant\<close>

text \<open>Deleting the only category sends its tasks to \<open>General\<close>, which is not an active
  category: in the state reached by adding one space and one objective, the invariant
  holds before \<^verbatim>\<open>deleteCategory\<close> and fails after it.\<close>

theorem last_category_deletion_breaks_invariant:
  "categoryInvariant reachedState
   \<and> map category (tasks (deleteCategory ''Work'' reachedState)) = [''General'']
   \<and> categories (deleteCategory ''Work'' reachedState) = []
   \<and> \<not> categoryInvariant (deleteCategory ''Work'' reachedState)"
  using reachedState_data
  by (simp add: categoryInvariant_def deleteCategory_def fallbackCategory_def taskShip_def)

text \<open>Claim C1, as amended. From a state in which every active task's category is active,
  the invariant still holds
  \<^item> after \<^verbatim>\<open>deleteCategory\<close>, when the list before the deletion has another category and
    the first such has a non-empty name (the cascade moves the tasks there);
  \<^item> after \<^verbatim>\<open>restoreCategoryFromArchive\<close>;
  \<^item> after \<^verbatim>\<open>restoreTaskFromArchive\<close>, when the restored task's category is active;
  \<^item> after \<^verbatim>\<open>handleSave\<close> (new task, edited task, new category), when the category
    selected in the sheet is active;
  \<^item> after \<^verbatim>\<open>importTasks\<close>, when the file does not parse, or supplies both fields and all
    its tasks refer to its categories.\<close>

theorem category_invariant_preservation:
  assumes "categoryInvariant s"
  shows "(find (\<lambda>c. c \<noteq> cat) (categories s) = Some f \<and> f \<noteq> [] \<longrightarrow>
            categoryInvariant (deleteCategory cat s))
       \<and> categoryInvariant (restoreCategoryFromArchive c s)
       \<and> (category t \<in> set (categories s) \<longrightarrow> categoryInvariant (restoreTaskFromArchive t s))
       \<and> (selectedCategory s \<in> set (categories s) \<longrightarrow>
            categoryInvariant (handleSave nowId nowCreated s))
       \<and> (\<exists>s'. importTasks None s = Typed s' \<and> categoryInvariant s')
       \<and> (data_tasks d = Sequence ts \<and> data_categories d = Sequence cs
            \<and> list_all (\<lambda>u. category u \<in> set cs) ts \<longrightarrow>
            (\<exists>s'. importTasks (Some d) s = Typed s' \<and> categoryInvariant s'))"
proof -
  have 1: "find (\<lambda>c. c \<noteq> cat) (categories s) = Some f \<and> f \<noteq> [] \<longrightarrow>
            categoryInvariant (deleteCategory cat s)"
    using assms by (blast intro: deleteCategory_keeps_invariant)
  have 2: "categoryInvariant (restoreCategoryFromArchive c s)"
    using assms by (auto simp: categoryInvariant_def restoreCategoryFromArchive_def list_all_iff)
  have 3: "category t \<in> set (categories s) \<longrightarrow> categoryInvariant (restoreTaskFromArchive t s)"
    using assms by (simp add: categoryInvariant_def restoreTaskFromArchive_def)
  have 4: "selectedCategory s \<in> set (categories s) \<longrightarrow>
            categoryInvariant (handleSave nowId nowCreated s)"
    using assms by (blast intro: handleSave_keeps_invariant)
  have 5: "\<exists>s'. importTasks None s = Typed s' \<and> categoryInvariant s'"
    using assms by (simp add: categoryInvariant_def importTasks_def)
  have 6: "data_tasks d = Sequence ts \<and> data_categories d = Sequence cs
            \<and> list_all (\<lambda>u. category u \<in> set cs) ts \<longrightarrow>
            (\<exists>s'. importTasks (Some d) s = Typed s' \<and> categoryInvariant s')"
    by (simp add: categoryInvariant_def importTasks_def)
  show ?thesis using 1 2 3 4 5 6 by blast
qed

theorem category_invariant_preservation_witness:
  "categoryInvariant archiveState
   \<and> find (\<lambda>c. c \<noteq> ''Home'') (categories archiveState) = Some ''Work''
   \<and> categoryInvariant (deleteCategory ''Home'' archiveState)
   \<and> categoryInvariant (restoreCategoryFromArchive ''Old'' archiveState)
   \<and> category (taskShip\<lparr> task_id := ''task_0'' \<rparr>) \<in> set (categories archiveState)
   \<and> categoryInvariant (restoreTaskFromArchive (taskShip\<lparr> task_id := ''task_0'' \<rparr>) archiveState)
   \<and> importTasks None archiveState
       = Typed (archiveState\<lparr> toastMessage := ''Invalid backup file'', isToastActive := True \<rparr>)
   \<and> categoryInvariant
        (archiveState\<lparr> toastMessage := ''Invalid backup file'', isToastActive := True \<rparr>)
   \<and> importTasks (Some homeBackup) archiveState
       = Typed (archiveState\<lparr> tasks := [taskMilk], categories := [''Home''],
                               toastMessage := ''Backup restored!'', isToastActive := True \<rparr>)
   \<and> categoryInvariant
        (archiveState\<lparr> tasks := [taskMilk], categories := [''Home''],
                        toastMessage := ''Backup restored!'', isToastActive := True \<rparr>)
   \<and> categoryInvariant reachedState
   \<and> selectedCategory reachedState \<in> set (categories reachedState)
   \<and> categoryInvariant (handleSave 2 2 reachedState)"
proof -
  have a: "categoryInvariant archiveState"
    by (simp add: categoryInvariant_def archiveState_def exampleState_def initialState_def
        taskShip_def taskMilk_def)
  have r: "categoryInvariant reachedState"
    using reachedState_data by (simp add: categoryInvariant_def taskShip_def)
  have sel: "selectedCategory reachedState \<in> set (categories reachedState)"
    by (simp add: reachedState_def handleSave_def initialState_def trim_def isWhiteSpace_def)
  have f: "find (\<lambda>c. c \<noteq> ''Home'') (categories archiveState) = Some ''Work''"
    by (simp add: archiveState_def exampleState_def initialState_def)
  have c: "category (taskShip\<lparr> task_id := ''task_0'' \<rparr>) \<in> set (categories archiveState)"
    by (simp add: archiveState_def exampleState_def initialState_def taskShip_def)
  have i: "data_tasks homeBackup = Sequence [taskMilk]
      \<and> data_categories homeBackup = Sequence [''Home'']
      \<and> list_all (\<lambda>u. category u \<in> set [''Home'']) [taskMilk]"
    by (simp add: homeBackup_def taskMilk_def)
  have n: "importTasks None archiveState
       = Typed (archiveState\<lparr> toastMessage := ''Invalid backup file'', isToastActive := True \<rparr>)"
    by (simp add: importTasks_def)
  have h: "importTasks (Some homeBackup) archiveState
       = Typed (archiveState\<lparr> tasks := [taskMilk], categories := [''Home''],
                               toastMessage := ''Backup restored!'', isToastActive := True \<rparr>)"
    by (simp add: importTasks_def homeBackup_def)
  show ?thesis
    using a r sel f c i n h
      category_invariant_preservation [OF a, of "''Home''" "''Work''" "''Old''"
        "taskShip\<lparr> task_id := ''task_0'' \<rparr>" 0 0 homeBackup "[taskMilk]" "[''Home'']"]
      category_invariant_preservation [OF r, of "''Work''" "''Work''" "''Old''" taskShip 2 2]
    by simp
qed

section \<open>The cascade of a category deletion\<close>

text \<open>When the first other category has the empty name, \<^verbatim>\<open>||\<close> discards it: the tasks
  of the deleted category go to \<open>General\<close> although another active category exists.\<close>

theorem empty_name_is_not_a_fallback:
  "categories emptyNameState = [[], ''Work'']
   \<and> map category (tasks emptyNameState) = [''Work'']
   \<and> map category (tasks (deleteCategory ''Work'' emptyNameState)) = [''General'']"
  by (simp add: emptyNameState_def initialState_def taskShip_def deleteCategory_def
      fallbackCategory_def)

text \<open>Claim C2, as amended. \<^verbatim>\<open>deleteCategory cat\<close> gives every active task whose category
  is \<open>cat\<close> the fallback category and leaves the other tasks and all other fields as they
  are. The fallback is computed from the category list before the removal: it is
  \<open>General\<close> when the list has no name other than \<open>cat\<close>, and otherwise the first name
  other than \<open>cat\<close>, unless that name is empty, in which case it is \<open>General\<close> again. The
  deleted name leaves the active list and heads the archived one, and a filter that
  showed \<open>cat\<close> is reset to \<open>All\<close>.\<close>

theorem deleteCategory_cascade:
  "tasks (deleteCategory cat s) =
     map (\<lambda>t. if category t = cat then t\<lparr> category := fallbackCategory cat (categories s) \<rparr> else t)
       (tasks s)
   \<and> ((\<forall>c\<in>set (categories s). c = cat) \<longrightarrow> fallbackCategory cat (categories s) = ''General'')
   \<and> (categories s = pre @ c # post \<and> (\<forall>d\<in>set pre. d = cat) \<and> c \<noteq> cat \<longrightarrow>
        fallbackCategory cat (categories s) = (if c = [] then ''General'' else c))
   \<and> categories (deleteCategory cat s) = filter (\<lambda>c. c \<noteq> cat) (categories s)
   \<and> archivedCategories (deleteCategory cat s) = cat # archivedCategories s
   \<and> activeCategory (deleteCategory cat s) = (if activeCategory s = cat then ''All'' else activeCategory s)"
proof -
  have none: "fallbackCategory cat (categories s) = ''General''"
    if "\<forall>c\<in>set (categories s). c = cat"
    using find_no_other [OF that] by (simp add: fallbackCategory_def)
  have first: "fallbackCategory cat (categories s) = (if c = [] then ''General'' else c)"
    if "categories s = pre @ c # post" and "\<forall>d\<in>set pre. d = cat" and "c \<noteq> cat"
    using find_first_other [OF that(2,3), of post] that(1) by (simp add: fallbackCategory_def)
  show ?thesis using none first by (simp add: deleteCategory_def)
qed

theorem deleteCategory_cascade_witness:
  "categories exampleState = [] @ ''Work'' # [''Home'']
   \<and> tasks (deleteCategory ''Home'' exampleState) = [taskMilk\<lparr> category := ''Work'' \<rparr>, taskShip]
   \<and> fallbackCategory ''Home'' (categories exampleState) = ''Work''
   \<and> categories (deleteCategory ''Home'' exampleState) = [''Work'']
   \<and> activeCategory (deleteCategory ''Home'' (exampleState\<lparr> activeCategory := ''Home'' \<rparr>)) = ''All''
   \<and> fallbackCategory ''Work'' (categories reachedState) = ''General''"
  using deleteCategory_cascade [of "''Home''" exampleState "[]" "''Work''" "[''Home'']"]
    deleteCategory_cascade [of "''Home''" "exampleState\<lparr> activeCategory := ''Home'' \<rparr>" "[]" "''Work''" "[''Home'']"]
    deleteCategory_cascade [of "''Work''" reachedState]
    reachedState_data
  by (simp add: exampleState_def initialState_def taskShip_def taskMilk_def)

section \<open>The undo cells\<close>

text \<open>Claim C3, evaluated on the code. A task is deleted and then a category. Both undo
  cells are filled at once: the deletion of the category does not clear the cell of the
  task. The toast reports the category, and \<^verbatim>\<open>undoDelete\<close>, which looks at the task
  cell first, brings back the task deleted before; the category stays archived and
  pending.\<close>

theorem two_deletions_pending_at_once:
  "lastDeletedTask (deleteCategory ''Home'' (deleteTask ''task_1'' exampleState)) = Some taskShip
   \<and> lastDeletedCategory (deleteCategory ''Home'' (deleteTask ''task_1'' exampleState)) = Some ''Home''
   \<and> toastMessage (deleteCategory ''Home'' (deleteTask ''task_1'' exampleState))
       = [CHR 0x27] @ ''Home'' @ [CHR 0x27] @ '' archived''
   \<and> tasks (undoDelete (deleteCategory ''Home'' (deleteTask ''task_1'' exampleState)))
       = [taskShip, taskMilk\<lparr> category := ''Work'' \<rparr>]
   \<and> categories (undoDelete (deleteCategory ''Home'' (deleteTask ''task_1'' exampleState))) = [''Work'']
   \<and> archivedCategories (undoDelete (deleteCategory ''Home'' (deleteTask ''task_1'' exampleState)))
       = [''Home'']
   \<and> lastDeletedCategory (undoDelete (deleteCategory ''Home'' (deleteTask ''task_1'' exampleState)))
       = Some ''Home''"
  by (simp add: exampleState_def initialState_def taskShip_def taskMilk_def deleteTask_def
      deleteCategory_def undoDelete_def fallbackCategory_def)

section \<open>Deleting a task and undoing it\<close>

text \<open>The undone task comes back in front of the list, not at its old place; and when two
  active tasks share an id, the deletion removes both and the undo returns only the
  first.\<close>

theorem undo_moves_task_to_front:
  "tasks exampleState = [taskMilk, taskShip]
   \<and> tasks (undoDelete (deleteTask ''task_1'' exampleState)) = [taskShip, taskMilk]
   \<and> tasks (undoDelete (deleteTask ''task_1'' exampleState)) \<noteq> tasks exampleState
   \<and> tasks sharedIdState = [taskShip, taskShip\<lparr> task_text := ''Ship v2'' \<rparr>]
   \<and> tasks (undoDelete (deleteTask ''task_1'' sharedIdState)) = [taskShip]"
  by (simp add: exampleState_def sharedIdState_def initialState_def taskShip_def taskMilk_def
      deleteTask_def undoDelete_def)

text \<open>Claim C4, as amended. Let \<open>t\<close> be an active task whose id no other active task and
  no archived task carries. Then \<^verbatim>\<open>deleteTask\<close> on its id followed at once by
  \<^verbatim>\<open>undoDelete\<close> puts \<open>t\<close> itself, so with every field as before, in front of the active
  list, followed by the other active tasks in their old order: the active list has the
  same tasks as before the deletion, with \<open>t\<close> moved to the front. The archived list is
  the one before the deletion, \<open>t\<close> is not in it, and the task cell is empty again.\<close>

theorem delete_then_undo:
  assumes "filter (\<lambda>u. task_id u = task_id t) (tasks s) = [t]"
    and "task_id t \<notin> task_id ` set (archivedTasks s)"
  shows "t \<in> set (tasks s)
       \<and> tasks (undoDelete (deleteTask (task_id t) s)) =
           t # filter (\<lambda>u. task_id u \<noteq> task_id t) (tasks s)
       \<and> mset (tasks (undoDelete (deleteTask (task_id t) s))) = mset (tasks s)
       \<and> archivedTasks (undoDelete (deleteTask (task_id t) s)) = archivedTasks s
       \<and> t \<notin> set (archivedTasks (undoDelete (deleteTask (task_id t) s)))
       \<and> lastDeletedTask (undoDelete (deleteTask (task_id t) s)) = None"
proof -
  have f: "find (\<lambda>u. task_id u = task_id t) (tasks s) = Some t"
    using assms(1) by (rule find_single)
  have i: "t \<in> set (tasks s)"
  proof -
    have "t \<in> set (filter (\<lambda>u. task_id u = task_id t) (tasks s))"
      by (simp only: assms(1)) simp
    then show ?thesis by simp
  qed
  have a: "filter (\<lambda>u. task_id u \<noteq> task_id t) (archivedTasks s) = archivedTasks s"
    using assms(2) by (rule filter_absent_id)
  have m: "mset (t # filter (\<lambda>u. task_id u \<noteq> task_id t) (tasks s)) = mset (tasks s)"
    using assms(1) by (rule mset_single_out)
  have n: "t \<notin> set (archivedTasks s)"
    using assms(2) by auto
  show ?thesis
    using i a m n by (simp add: deleteTask_def undoDelete_def f)
qed

theorem delete_then_undo_witness:
  "filter (\<lambda>u. task_id u = task_id taskShip) (tasks exampleState) = [taskShip]
   \<and> task_id taskShip \<notin> task_id ` set (archivedTasks exampleState)
   \<and> tasks (undoDelete (deleteTask ''task_1'' exampleState)) = [taskShip, taskMilk]
   \<and> mset (tasks (undoDelete (deleteTask ''task_1'' exampleState))) = mset (tasks exampleState)
   \<and> archivedTasks (undoDelete (deleteTask ''task_1'' exampleState)) = archivedTasks exampleState
   \<and> filter (\<lambda>u. task_id u = task_id taskMilk) (tasks repeatedIdState) = [taskMilk]
   \<and> task_id taskMilk \<notin> task_id ` set (archivedTasks repeatedIdState)
   \<and> tasks (undoDelete (deleteTask ''task_2'' repeatedIdState)) = [taskMilk, taskShip, taskShip]
   \<and> mset (tasks (undoDelete (deleteTask ''task_2'' repeatedIdState))) = mset (tasks repeatedIdState)"
  using delete_then_undo [of taskShip exampleState] delete_then_undo [of taskMilk repeatedIdState]
  by (simp add: exampleState_def repeatedIdState_def initialState_def taskShip_def taskMilk_def)

section \<open>Restoring from the archive\<close>

text \<open>A restored category goes to the end of the active category list.\<close>

theorem restored_category_is_appended:
  "archivedCategories archiveState = [''Old'']
   \<and> categories archiveState = [''Work'', ''Home'']
   \<and> categories (restoreCategoryFromArchive ''Old'' archiveState) = [''Work'', ''Home'', ''Old'']
   \<and> hd (categories (restoreCategoryFromArchive ''Old'' archiveState)) \<noteq> ''Old''"
  by (simp add: archiveState_def exampleState_def initialState_def restoreCategoryFromArchive_def)

text \<open>Claim C5, as amended. \<^verbatim>\<open>restoreTaskFromArchive\<close> puts the task in front of the active
  tasks and removes from the archive every task with its id. \<^verbatim>\<open>restoreCategoryFromArchive\<close>
  puts the name at the end of the active categories and removes it from the archived
  ones; it changes no task, active or archived, so no task returns to the restored
  category.\<close>

theorem restore_from_archive:
  "tasks (restoreTaskFromArchive t s) = t # tasks s
   \<and> archivedTasks (restoreTaskFromArchive t s)
       = filter (\<lambda>u. task_id u \<noteq> task_id t) (archivedTasks s)
   \<and> t \<notin> set (archivedTasks (restoreTaskFromArchive t s))
   \<and> categories (restoreTaskFromArchive t s) = categories s
   \<and> categories (restoreCategoryFromArchive cat s) = categories s @ [cat]
   \<and> archivedCategories (restoreCategoryFromArchive cat s)
       = filter (\<lambda>c. c \<noteq> cat) (archivedCategories s)
   \<and> cat \<notin> set (archivedCategories (restoreCategoryFromArchive cat s))
   \<and> tasks (restoreCategoryFromArchive cat s) = tasks s
   \<and> archivedTasks (restoreCategoryFromArchive cat s) = archivedTasks s"
  by (simp add: restoreTaskFromArchive_def restoreCategoryFromArchive_def)

theorem restore_from_archive_witness:
  "tasks (restoreTaskFromArchive (taskShip\<lparr> task_id := ''task_0'' \<rparr>) archiveState)
     = [taskShip\<lparr> task_id := ''task_0'' \<rparr>, taskMilk, taskShip]
   \<and> archivedTasks (restoreTaskFromArchive (taskShip\<lparr> task_id := ''task_0'' \<rparr>) archiveState) = []
   \<and> categories (restoreCategoryFromArchive ''Old'' archiveState) = [''Work'', ''Home'', ''Old'']
   \<and> archivedCategories (restoreCategoryFromArchive ''Old'' archiveState) = []
   \<and> tasks (restoreCategoryFromArchive ''Old'' archiveState) = [taskMilk, taskShip]"
  using restore_from_archive [of "taskShip\<lparr> task_id := ''task_0'' \<rparr>" archiveState "''Old''"]
  by (simp add: archiveState_def exampleState_def initialState_def)

section \<open>Purging from the archive\<close>

text \<open>A purge removes every archived entry with the given id or name and writes nothing
  else but the toast: the active lists and both undo cells stay as they are.\<close>

lemma purge_only_changes_archive:
  "tasks (permanentlyDeleteTask i s) = tasks s
   \<and> categories (permanentlyDeleteTask i s) = categories s
   \<and> archivedCategories (permanentlyDeleteTask i s) = archivedCategories s
   \<and> lastDeletedTask (permanentlyDeleteTask i s) = lastDeletedTask s
   \<and> lastDeletedCategory (permanentlyDeleteTask i s) = lastDeletedCategory s
   \<and> i \<notin> task_id ` set (archivedTasks (permanentlyDeleteTask i s))
   \<and> tasks (permanentlyDeleteCategory cat s) = tasks s
   \<and> categories (permanentlyDeleteCategory cat s) = categories s
   \<and> archivedTasks (permanentlyDeleteCategory cat s) = archivedTasks s
   \<and> lastDeletedTask (permanentlyDeleteCategory cat s) = lastDeletedTask s
   \<and> lastDeletedCategory (permanentlyDeleteCategory cat s) = lastDeletedCategory s
   \<and> cat \<notin> set (archivedCategories (permanentlyDeleteCategory cat s))"
  by (auto simp: permanentlyDeleteTask_def permanentlyDeleteCategory_def)

text \<open>Claim C6, evaluated on the code. A task is deleted and then purged from the archive:
  it is in neither list, and the toast reads \<open>Permanently deleted\<close>. The undo cell that
  the deletion filled is still filled after the purge, so \<^verbatim>\<open>undoDelete\<close> puts the
  purged task back among the active tasks. The same happens to a purged category.\<close>

theorem purge_reversed_by_pending_undo:
  "archivedTasks (deleteTask ''task_1'' exampleState) = [taskShip]
   \<and> archivedTasks (permanentlyDeleteTask ''task_1'' (deleteTask ''task_1'' exampleState)) = []
   \<and> tasks (permanentlyDeleteTask ''task_1'' (deleteTask ''task_1'' exampleState)) = [taskMilk]
   \<and> toastMessage (permanentlyDeleteTask ''task_1'' (deleteTask ''task_1'' exampleState))
       = ''Permanently deleted''
   \<and> tasks (undoDelete (permanentlyDeleteTask ''task_1'' (deleteTask ''task_1'' exampleState)))
       = [taskShip, taskMilk]
   \<and> archivedCategories (permanentlyDeleteCategory ''Home'' (deleteCategory ''Home'' exampleState)) = []
   \<and> categories (permanentlyDeleteCategory ''Home'' (deleteCategory ''Home'' exampleState)) = [''Work'']
   \<and> categories (undoDelete (permanentlyDeleteCategory ''Home'' (deleteCategory ''Home'' exampleState)))
       = [''Work'', ''Home'']"
  by (simp add: exampleState_def initialState_def taskShip_def taskMilk_def deleteTask_def
      deleteCategory_def undoDelete_def permanentlyDeleteTask_def permanentlyDeleteCategory_def)

section \<open>Import\<close>




section \<open>Statistics\<close>

lemma progress_of_part:
  assumes "0 < k" and "k \<le> n"
  shows "0 < toDouble (toDouble (of_nat k / of_nat n) * 100)"
    and "toDouble (toDouble (of_nat k / of_nat n) * 100) \<le> 100"
    and "\<bar>toDouble (toDouble (of_nat k / of_nat n) * 100) - 100 * of_nat k / of_nat n\<bar>
           \<le> (100 * of_nat k / of_nat n) / 2 ^ 51"
proof -
  define q :: rat where "q = of_nat k / of_nat n"
  define a where "a = toDouble q"
  define p where "p = toDouble (a * 100)"
  have q0: "0 < q" using assms by (simp add: q_def)
  have q1: "q \<le> of_nat 1" using assms by (simp add: q_def)
  have a0: "0 < a" unfolding a_def using q0 by (rule toDouble_pos)
  have a1: "a \<le> of_nat 1" unfolding a_def using q0 q1 by (rule toDouble_le_nat) simp
  have y0: "0 < a * 100" using a0 by simp
  have y1: "a * 100 \<le> of_nat 100" using a1 by simp
  have p0: "0 < p" unfolding p_def using y0 by (rule toDouble_pos)
  have p1: "p \<le> of_nat 100" unfolding p_def using y0 y1 by (rule toDouble_le_nat) simp
  have ea: "\<bar>a - q\<bar> \<le> q / 2 ^ 53" unfolding a_def using q0 by (rule toDouble_error)
  have ep: "\<bar>p - a * 100\<bar> \<le> a * 100 / 2 ^ 53" unfolding p_def using y0 by (rule toDouble_error)
  have a2: "a \<le> 2 * q"
  proof -
    have "a \<le> q + q / 2 ^ 53" using ea by linarith
    also have "\<dots> \<le> q + q" using q0 by (simp add: field_simps)
    finally show ?thesis by simp
  qed
  have "\<bar>p - 100 * q\<bar> = \<bar>(p - a * 100) + 100 * (a - q)\<bar>" by (simp add: algebra_simps)
  also have "\<dots> \<le> \<bar>p - a * 100\<bar> + \<bar>100 * (a - q)\<bar>" by (rule abs_triangle_ineq)
  also have "\<dots> = \<bar>p - a * 100\<bar> + 100 * \<bar>a - q\<bar>"
    using abs_mult [of 100 "a - q"] by simp
  also have "\<dots> \<le> a * 100 / 2 ^ 53 + 100 * (q / 2 ^ 53)"
    using ep ea by (intro add_mono mult_left_mono) simp_all
  also have "\<dots> \<le> (2 * q) * 100 / 2 ^ 53 + 100 * (q / 2 ^ 53)"
    using a2 by (simp add: divide_right_mono)
  also have "\<dots> \<le> (100 * q) / 2 ^ 51" using q0 by (simp add: field_simps)
  finally have err: "\<bar>p - 100 * q\<bar> \<le> (100 * q) / 2 ^ 51" .
  show "0 < toDouble (toDouble (of_nat k / of_nat n) * 100)"
    using p0 by (simp add: p_def a_def q_def)
  show "toDouble (toDouble (of_nat k / of_nat n) * 100) \<le> 100"
    using p1 by (simp add: p_def a_def q_def)
  show "\<bar>toDouble (toDouble (of_nat k / of_nat n) * 100) - 100 * of_nat k / of_nat n\<bar>
           \<le> (100 * of_nat k / of_nat n) / 2 ^ 51"
    using err by (simp add: p_def a_def q_def)
qed

lemma categoryStat_counts:
  "length (filter (\<lambda>t. category t = cat) ts) = n \<Longrightarrow>
   length (filter (\<lambda>t. category t = cat \<and> completed t) ts) = k \<Longrightarrow>
   categoryStat ts cat =
     \<lparr> stat_name = cat, stat_count = n,
       stat_progress = (if n = 0 then 0 else toDouble (toDouble (of_nat k / of_nat n) * 100)) \<rparr>"
  by (auto simp: categoryStat_def Let_def conj_commute)

lemma sprintState_stats:
  "categoryStats sprintState =
     [\<lparr> stat_name = ''Work'', stat_count = 25,
        stat_progress = toDouble (toDouble (7 / 25) * 100) \<rparr>]"
proof -
  have n: "length (filter (\<lambda>t. category t = ''Work'') (tasks sprintState)) = 25"
    by (simp add: sprintState_def sprintTask_def upt_rec)
  have k: "length (filter (\<lambda>t. category t = ''Work'' \<and> completed t) (tasks sprintState)) = 7"
    by (simp add: sprintState_def sprintTask_def upt_rec)
  have cats: "categories sprintState = [''Work'']"
    by (simp add: sprintState_def)
  show ?thesis
    using categoryStat_counts [OF n k] by (simp add: categoryStats_def cats)
qed

lemma sprintState_completed:
  "length (filter (\<lambda>t. category t = ''Work'' \<and> completed t) (tasks sprintState)) = 7"
  by (simp add: sprintState_def sprintTask_def upt_rec)

text \<open>Seven completed tasks of twenty-five: the quotient 7/25 is no double, its rounded
  value times 100 lies above 28 and is rounded to the next double above 28 (printed as
  28.000000000000004), although 28 is a double.\<close>

theorem progress_is_rounded_twice:
  "map stat_count (categoryStats sprintState) = [25]
   \<and> length (filter (\<lambda>t. category t = ''Work'' \<and> completed t) (tasks sprintState)) = 7
   \<and> map stat_progress (categoryStats sprintState) = [7881299347898369 / 281474976710656]
   \<and> map stat_progress (categoryStats sprintState) \<noteq> [100 * 7 / 25]"
  using sprintState_completed by (simp add: sprintState_stats toDouble_seven_of_25)

text \<open>Claim C8, as amended. \<^verbatim>\<open>categoryStats\<close> has one entry per active category, in order.
  The count of an entry is the number of active tasks whose category is the entry's name.
  Its progress lies between 0 and 100 and is 0 when the count is 0. When the count is
  positive, the progress is the double-precision value of (completed / count) * 100, the
  quotient of the number of completed such tasks by the count rounded to a double, times
  100, rounded again: it is 0 exactly when none of the tasks is completed, it is 100
  when all are, and it differs from 100 * completed / count by at most that value
  divided by \<open>2 ^ 51\<close>.\<close>

theorem categoryStats_report:
  "map stat_name (categoryStats s) = categories s
   \<and> (\<forall>st \<in> set (categoryStats s).
         stat_count st = length (filter (\<lambda>t. category t = stat_name st) (tasks s))
       \<and> 0 \<le> stat_progress st \<and> stat_progress st \<le> 100
       \<and> (stat_count st = 0 \<longrightarrow> stat_progress st = 0)
       \<and> (0 < stat_count st \<longrightarrow>
            stat_progress st =
              toDouble (toDouble
                (of_nat (length (filter (\<lambda>t. category t = stat_name st \<and> completed t) (tasks s)))
                   / of_nat (stat_count st)) * 100)
          \<and> (stat_progress st = 0 \<longleftrightarrow>
               length (filter (\<lambda>t. category t = stat_name st \<and> completed t) (tasks s)) = 0)
          \<and> (length (filter (\<lambda>t. category t = stat_name st \<and> completed t) (tasks s))
                = stat_count st \<longrightarrow> stat_progress st = 100)
          \<and> \<bar>stat_progress st
              - 100 * of_nat (length (filter (\<lambda>t. category t = stat_name st \<and> completed t) (tasks s)))
                  / of_nat (stat_count st)\<bar>
             \<le> (100 * of_nat (length (filter (\<lambda>t. category t = stat_name st \<and> completed t) (tasks s)))
                  / of_nat (stat_count st)) / 2 ^ 51))"
proof -
  have names: "map stat_name (categoryStats s) = categories s"
    by (simp add: categoryStats_def categoryStat_def Let_def comp_def)
  have each: "stat_count st = length (filter (\<lambda>t. category t = stat_name st) (tasks s))
       \<and> 0 \<le> stat_progress st \<and> stat_progress st \<le> 100
       \<and> (stat_count st = 0 \<longrightarrow> stat_progress st = 0)
       \<and> (0 < stat_count st \<longrightarrow>
            stat_progress st =
              toDouble (toDouble
                (of_nat (length (filter (\<lambda>t. category t = stat_name st \<and> completed t) (tasks s)))
                   / of_nat (stat_count st)) * 100)
          \<and> (stat_progress st = 0 \<longleftrightarrow>
               length (filter (\<lambda>t. category t = stat_name st \<and> completed t) (tasks s)) = 0)
          \<and> (length (filter (\<lambda>t. category t = stat_name st \<and> completed t) (tasks s))
                = stat_count st \<longrightarrow> stat_progress st = 100)
          \<and> \<bar>stat_progress st
              - 100 * of_nat (length (filter (\<lambda>t. category t = stat_name st \<and> completed t) (tasks s)))
                  / of_nat (stat_count st)\<bar>
             \<le> (100 * of_nat (length (filter (\<lambda>t. category t = stat_name st \<and> completed t) (tasks s)))
                  / of_nat (stat_count st)) / 2 ^ 51)"
    if "st \<in> set (categoryStats s)" for st
  proof -
    from that obtain c where st: "st = categoryStat (tasks s) c"
      by (auto simp: categoryStats_def)
    define n where "n = length (filter (\<lambda>t. category t = c) (tasks s))"
    define k where "k = length (filter completed (filter (\<lambda>t. category t = c) (tasks s)))"
    have kn: "k \<le> n" unfolding k_def n_def by (rule length_filter_le)
    have k': "length (filter (\<lambda>t. category t = c \<and> completed t) (tasks s)) = k"
      unfolding k_def by (simp add: conj_commute)
    have nm: "stat_name st = c" and cnt: "stat_count st = n"
      and pr: "stat_progress st =
                 (if n = 0 then 0 else toDouble (toDouble (of_nat k / of_nat n) * 100))"
      by (simp_all add: st categoryStat_def Let_def n_def k_def)
    have zero: "toDouble (toDouble (of_nat 0 / of_nat n) * 100) = 0"
      by (simp add: toDouble_def)
    have full: "toDouble (toDouble (of_nat n / of_nat n) * 100) = 100" if "0 < n"
      using that by (simp add: toDouble_one toDouble_hundred)
    have goal: "0 \<le> stat_progress st \<and> stat_progress st \<le> 100
       \<and> (n = 0 \<longrightarrow> stat_progress st = 0)
       \<and> (0 < n \<longrightarrow>
            stat_progress st = toDouble (toDouble (of_nat k / of_nat n) * 100)
          \<and> (stat_progress st = 0 \<longleftrightarrow> k = 0)
          \<and> (k = n \<longrightarrow> stat_progress st = 100)
          \<and> \<bar>stat_progress st - 100 * of_nat k / of_nat n\<bar> \<le> (100 * of_nat k / of_nat n) / 2 ^ 51)"
    proof (cases "n = 0")
      case True
      then show ?thesis by (simp add: pr)
    next
      case n: False
      show ?thesis
      proof (cases "k = 0")
        case True
        then show ?thesis using n zero by (simp add: pr)
      next
        case False
        then have k0: "0 < k" by simp
        from progress_of_part [OF k0 kn] full n
        show ?thesis using False by (auto simp: pr)
      qed
    qed
    show ?thesis unfolding nm cnt k' using goal n_def by blast
  qed
  show ?thesis using names each by blast
qed

theorem categoryStats_report_witness:
  "categoryStats exampleState =
     [\<lparr> stat_name = ''Work'', stat_count = 1, stat_progress = 0 \<rparr>,
      \<lparr> stat_name = ''Home'', stat_count = 1, stat_progress = 100 \<rparr>]
   \<and> map stat_name (categoryStats exampleState) = categories exampleState
   \<and> map stat_count (categoryStats sprintState) = [25]
   \<and> map stat_progress (categoryStats sprintState) = [toDouble (toDouble (7 / 25) * 100)]"
proof -
  have z: "toDouble 0 = 0" by (simp add: toDouble_def)
  have e: "categoryStats exampleState =
     [\<lparr> stat_name = ''Work'', stat_count = 1, stat_progress = 0 \<rparr>,
      \<lparr> stat_name = ''Home'', stat_count = 1, stat_progress = 100 \<rparr>]"
    by (simp add: categoryStats_def categoryStat_def exampleState_def initialState_def
        taskShip_def taskMilk_def z toDouble_one toDouble_hundred)
  show ?thesis
    using categoryStats_report [of exampleState] categoryStats_report [of sprintState] e
    by (simp add: sprintState_stats exampleState_def initialState_def)
qed

section \<open>Reordering\<close>

text \<open>Claim C9. A reordering becomes the active task list when the view is unfiltered
  (the category filter is \<open>All\<close> and the search term is empty); with a category filter
  or a search term it changes nothing.\<close>

theorem reorder_only_unfiltered:
  "(activeCategory s = ''All'' \<and> searchQuery s = [] \<longrightarrow>
      tasks (onReorder newOrder s) = newOrder)
   \<and> (activeCategory s \<noteq> ''All'' \<or> searchQuery s \<noteq> [] \<longrightarrow> onReorder newOrder s = s)"
  by (simp add: onReorder_def)

theorem reorder_only_unfiltered_witness:
  "activeCategory exampleState = ''All'' \<and> searchQuery exampleState = []
   \<and> tasks (onReorder [taskShip, taskMilk] exampleState) = [taskShip, taskMilk]
   \<and> searchQuery (exampleState\<lparr> searchQuery := ''milk'' \<rparr>) \<noteq> []
   \<and> onReorder [taskShip, taskMilk] (exampleState\<lparr> searchQuery := ''milk'' \<rparr>)
       = exampleState\<lparr> searchQuery := ''milk'' \<rparr>
   \<and> activeCategory (exampleState\<lparr> activeCategory := ''Home'' \<rparr>) \<noteq> ''All''
   \<and> tasks (onReorder [taskShip, taskMilk] (exampleState\<lparr> activeCategory := ''Home'' \<rparr>))
       = [taskMilk, taskShip]"
  using reorder_only_unfiltered [of exampleState "[taskShip, taskMilk]"]
    reorder_only_unfiltered [of "exampleState\<lparr> searchQuery := ''milk'' \<rparr>" "[taskShip, taskMilk]"]
    reorder_only_unfiltered [of "exampleState\<lparr> activeCategory := ''Home'' \<rparr>" "[taskShip, taskMilk]"]
  by (simp add: exampleState_def initialState_def)

section \<open>Archived tasks of a deleted category\<close>

text \<open>Claim C10. \<^verbatim>\<open>deleteCategory\<close> leaves the archived tasks as they are, so an archived
  task of the deleted category still names it; restoring that task puts into the active
  list a task whose category is not active, and the category invariant fails.\<close>

theorem archived_task_keeps_deleted_category:
  assumes "t \<in> set (archivedTasks s)" and "category t = cat"
  shows "archivedTasks (deleteCategory cat s) = archivedTasks s
       \<and> t \<in> set (archivedTasks (deleteCategory cat s))
       \<and> t \<in> set (tasks (restoreTaskFromArchive t (deleteCategory cat s)))
       \<and> category t \<notin> set (categories (restoreTaskFromArchive t (deleteCategory cat s)))
       \<and> \<not> categoryInvariant (restoreTaskFromArchive t (deleteCategory cat s))"
  using assms
  by (simp add: deleteCategory_def restoreTaskFromArchive_def categoryInvariant_def)

theorem archived_task_keeps_deleted_category_witness:
  "taskShip\<lparr> task_id := ''task_0'' \<rparr> \<in> set (archivedTasks archiveState)
   \<and> category (taskShip\<lparr> task_id := ''task_0'' \<rparr>) = ''Work''
   \<and> archivedTasks (deleteCategory ''Work'' archiveState) = archivedTasks archiveState
   \<and> categories (restoreTaskFromArchive (taskShip\<lparr> task_id := ''task_0'' \<rparr>)
        (deleteCategory ''Work'' archiveState)) = [''Home'']
   \<and> map category (tasks (restoreTaskFromArchive (taskShip\<lparr> task_id := ''task_0'' \<rparr>)
        (deleteCategory ''Work'' archiveState))) = [''Work'', ''Home'', ''Home'']"
  using archived_task_keeps_deleted_category
    [of "taskShip\<lparr> task_id := ''task_0'' \<rparr>" archiveState "''Work''"]
  by (simp add: archiveState_def exampleState_def initialState_def taskShip_def taskMilk_def
      deleteCategory_def restoreTaskFromArchive_def fallbackCategory_def)

end
